theory Spec2Isabelle
  imports Complex_Main "HOL-Library.Sublist"
begin

section \<open>Local record store\<close>

text \<open>
  The object store \<open>transcripts\<close> of the database \<open>smartcapi_local\<close> is created with
  \<open>keyPath: "uuid"\<close>: a record is stored under its own \<open>uuid\<close> field.  The record written
  by \<open>saveTranscript\<close> has the fields below.  \<open>updated_at\<close> is the only timestamp kept in a
  record (\<open>Date.now() / 1000\<close>, seconds); \<open>sync_status\<close> is a JavaScript string.
  The field \<open>text\<close> of the source is called \<open>transcript_text\<close> here.
\<close>

record transcript =
  uuid :: string
  speaker_id :: string
  transcript_text :: string
  updated_at :: rat
  sync_status :: string

text \<open>
  The object store is the sequence of its records.  \<open>store_get\<close> is \<open>store.get(key)\<close>:
  the record stored under the key, if any.  \<open>store_put\<close> is \<open>store.put(record)\<close>:
  the record replaces the one stored under its key, or is added as a new one.
  The database is taken to be open: the \<open>request.onerror\<close> paths of
  \<open>indexedDB.open\<close> are outside this model.
\<close>

type_synonym object_store = "transcript list"

fun store_get :: "string \<Rightarrow> object_store \<Rightarrow> transcript option" where
  "store_get k [] = None"
| "store_get k (x # xs) = (if uuid x = k then Some x else store_get k xs)"

fun store_put :: "transcript \<Rightarrow> object_store \<Rightarrow> object_store" where
  "store_put r [] = [r]"
| "store_put r (x # xs) = (if uuid x = uuid r then r # xs else x # store_put r xs)"

text \<open>The rejections and exceptions that reach \<open>syncWithServer\<close>.\<close>

datatype sync_error =
    RecordNotFound string   \<comment> \<open>rejection of \<open>updateTranscriptStatus\<close>, with its message\<close>
  | NetworkFailure          \<comment> \<open>\<open>fetch\<close> rejected\<close>
  | ServerResponded nat     \<comment> \<open>\<open>new Error(`Server responded with ${response.status}`)\<close>\<close>
  | InvalidJson             \<comment> \<open>\<open>response.json()\<close> rejected\<close>
  | NoResultsArray          \<comment> \<open>\<open>data.results.map\<close> raised a TypeError\<close>

text \<open>\<open>saveTranscript\<close> of localDb: the uuid and the clock (milliseconds) are inputs.\<close>

definition saveTranscript :: "string \<Rightarrow> nat \<Rightarrow> string \<Rightarrow> string \<Rightarrow> object_store \<Rightarrow> object_store" where
  "saveTranscript randomUUID now spk txt st =
     store_put \<lparr>uuid = randomUUID, speaker_id = spk, transcript_text = txt,
                updated_at = of_nat now / 1000, sync_status = ''pending''\<rparr> st"

text \<open>\<open>index.getAll("pending")\<close> on the index over \<open>sync_status\<close>.\<close>

definition getPendingTranscripts :: "object_store \<Rightarrow> transcript list" where
  "getPendingTranscripts st = filter (\<lambda>r. sync_status r = ''pending'') st"

text \<open>\<open>updateTranscriptStatus\<close> of localDb (used by the client's sync service).\<close>

definition updateTranscriptStatus :: "string \<Rightarrow> string \<Rightarrow> object_store \<Rightarrow> sync_error + object_store" where
  "updateTranscriptStatus k status st =
     (case store_get k st of
        Some record \<Rightarrow> Inr (store_put (record\<lparr>sync_status := status\<rparr>) st)
      | None \<Rightarrow> Inl (RecordNotFound ''Record not found.''))"

text \<open>
  The service worker's own copies of the two store functions.  Its
  \<open>getPendingTranscripts\<close> resolves with \<open>[]\<close> when the database has no object store
  \<open>transcripts\<close> yet; here such a database is the empty store, for which the function
  gives \<open>[]\<close> as well.
\<close>

definition sw_getPendingTranscripts :: "object_store \<Rightarrow> transcript list" where
  "sw_getPendingTranscripts st = filter (\<lambda>r. sync_status r = ''pending'') st"

definition sw_updateTranscriptStatus :: "string \<Rightarrow> string \<Rightarrow> object_store \<Rightarrow> sync_error + object_store" where
  "sw_updateTranscriptStatus k status st =
     (case store_get k st of
        Some record \<Rightarrow> Inr (store_put (record\<lparr>sync_status := status\<rparr>) st)
      | None \<Rightarrow> Inl (RecordNotFound (''Record not found: '' @ k)))"

section \<open>Sync orchestrator\<close>

text \<open>
  One entry of \<open>data.results\<close>.  The code reads the fields \<open>uuid\<close> and \<open>status\<close> of
  an entry; both are strings.
\<close>

record sync_result =
  result_uuid :: string
  result_status :: string

text \<open>
  What \<open>fetch\<close> of \<open>POST /api/sync\<close> gives: a rejection, or a response with its status
  and its body.  A body is either not JSON, or JSON whose \<open>results\<close> member is an array
  of entries or is missing.  The network is a function of the submitted items.
\<close>

datatype sync_body = NotJson | Json "sync_result list option"

datatype sync_fetch = FetchRejected | FetchResponse nat sync_body

type_synonym sync_network = "transcript list \<Rightarrow> sync_fetch"

definition response_ok :: "nat \<Rightarrow> bool" where
  "response_ok status = (200 \<le> status \<and> status \<le> 299)"

text \<open>
  \<open>data.results.map(...)\<close> starts one call of \<open>updateTranscriptStatus\<close> per entry (or, in
  the client, none for an entry: the arrow function returns \<open>undefined\<close>), and
  \<open>Promise.all\<close> waits for them.  Every call is started before any is awaited, each is a
  read-write transaction on the same object store, and such transactions run one after the
  other in the order of their creation.  So every call runs, also after another one has
  rejected; \<open>Promise.all\<close> rejects with the first rejection.
\<close>

type_synonym update_fun = "string \<Rightarrow> string \<Rightarrow> object_store \<Rightarrow> sync_error + object_store"

fun promise_all :: "update_fun \<Rightarrow> (string \<times> string) option list \<Rightarrow> object_store
    \<Rightarrow> sync_error option \<times> object_store" where
  "promise_all upd [] st = (None, st)"
| "promise_all upd (None # cs) st = promise_all upd cs st"
| "promise_all upd (Some (k, status) # cs) st =
     (case upd k status st of
        Inr st1 \<Rightarrow> promise_all upd cs st1
      | Inl e \<Rightarrow> (Some e, snd (promise_all upd cs st)))"

text \<open>The arrow function of the service worker (lines 82 to 85).\<close>

definition sw_result_call :: "sync_result \<Rightarrow> (string \<times> string) option" where
  "sw_result_call result =
     (let newStatus = (if result_status result = ''created'' \<or> result_status result = ''updated''
                       then ''synced'' else ''conflict'')
      in Some (result_uuid result, newStatus))"

text \<open>The arrow function of the client's sync service (lines 30 to 36).\<close>

definition result_call :: "sync_result \<Rightarrow> (string \<times> string) option" where
  "result_call result =
     (if result_status result = ''created'' \<or> result_status result = ''updated''
      then Some (result_uuid result, ''synced'')
      else if result_status result = ''conflict''
      then Some (result_uuid result, ''conflict'')
      else None)"

text \<open>
  The body of the \<open>try\<close> block, which both copies share up to the arrow function and the
  store function they call: the outcome (\<open>Inl\<close> the exception raised inside the block)
  and the store afterwards.
\<close>

definition sync_try :: "update_fun \<Rightarrow> (sync_result \<Rightarrow> (string \<times> string) option) \<Rightarrow> sync_network
    \<Rightarrow> transcript list \<Rightarrow> object_store \<Rightarrow> (sync_error + unit) \<times> object_store" where
  "sync_try upd call fetch pendingItems st =
     (case fetch pendingItems of
        FetchRejected \<Rightarrow> (Inl NetworkFailure, st)
      | FetchResponse status body \<Rightarrow>
          if \<not> response_ok status then (Inl (ServerResponded status), st)
          else (case body of
                  NotJson \<Rightarrow> (Inl InvalidJson, st)
                | Json None \<Rightarrow> (Inl NoResultsArray, st)
                | Json (Some results) \<Rightarrow>
                    (case promise_all upd (map call results) st of
                       (None, st') \<Rightarrow> (Inr (), st')
                     | (Some e, st') \<Rightarrow> (Inl e, st'))))"

text \<open>
  What a call of \<open>syncWithServer\<close> leaves behind: the error it throws to its caller
  (\<open>None\<close> when it returns normally), the store, and the batch requests it sent.
\<close>

record sync_outcome =
  thrown :: "sync_error option"
  store_after :: object_store
  requests :: "transcript list list"

text \<open>\<open>syncWithServer\<close> of the service worker: the \<open>catch\<close> block rethrows.\<close>

definition sw_syncWithServer :: "sync_network \<Rightarrow> object_store \<Rightarrow> sync_outcome" where
  "sw_syncWithServer fetch st =
     (let pendingItems = sw_getPendingTranscripts st in
      if pendingItems = [] then \<lparr>thrown = None, store_after = st, requests = []\<rparr>
      else (case sync_try sw_updateTranscriptStatus sw_result_call fetch pendingItems st of
              (Inr _, st') \<Rightarrow> \<lparr>thrown = None, store_after = st', requests = [pendingItems]\<rparr>
            | (Inl error, st') \<Rightarrow>
                \<lparr>thrown = Some error, store_after = st', requests = [pendingItems]\<rparr>))"

text \<open>
  \<open>syncWithServer\<close> of the client's sync service: the \<open>catch\<close> block logs the error and
  falls through, so the function returns normally.
\<close>

definition syncWithServer :: "sync_network \<Rightarrow> object_store \<Rightarrow> sync_outcome" where
  "syncWithServer fetch st =
     (let pendingItems = getPendingTranscripts st in
      if pendingItems = [] then \<lparr>thrown = None, store_after = st, requests = []\<rparr>
      else (case sync_try updateTranscriptStatus result_call fetch pendingItems st of
              (Inr _, st') \<Rightarrow> \<lparr>thrown = None, store_after = st', requests = [pendingItems]\<rparr>
            | (Inl error, st') \<Rightarrow>
                \<lparr>thrown = None, store_after = st', requests = [pendingItems]\<rparr>))"

section \<open>Request router and cache maintenance (service worker)\<close>

definition CACHE_NAME :: string where
  "CACHE_NAME = ''smartcapi-v1''"

definition STATIC_FILES :: "string list" where
  "STATIC_FILES = [''/'', ''/index.html'', ''/offline.html'', ''/manifest.json'',
     ''/icons/smartcapi-icon.png'', ''/icons/smartcapi-logo.png'']"

text \<open>
  A request is its method and the parts of its URL (\<open>new URL(event.request.url)\<close> gives
  the \<open>pathname\<close>); a response is its status, headers and body.
\<close>

record request =
  req_method :: string
  req_origin :: string
  req_pathname :: string
  req_search :: string

record response =
  resp_status :: nat
  resp_headers :: "(string \<times> string) list"
  resp_body :: string

definition req_url :: "request \<Rightarrow> string" where
  "req_url r = req_origin r @ req_pathname r @ req_search r"

text \<open>
  A cache maps request URLs to responses; the cache storage holds the named caches in
  the order of their creation, which is the order of \<open>caches.keys()\<close> and the order in
  which \<open>caches.match\<close> searches them.  \<open>caches.open\<close> creates a cache that is missing.
  \<open>cache.put\<close> replaces the entry of the URL; the platform rejects a response of status
  206 and stores nothing then (other refusals of the platform, on the \<open>Vary\<close> header or a
  consumed body, are not modelled), and no handler looks at the promise of \<open>cache.put\<close>.
\<close>

type_synonym cache = "(string \<times> response) list"

type_synonym cache_storage = "(string \<times> cache) list"

definition caches_keys :: "cache_storage \<Rightarrow> string list" where
  "caches_keys cs = map fst cs"

definition caches_open :: "string \<Rightarrow> cache_storage \<Rightarrow> cache_storage" where
  "caches_open name cs = (if name \<in> set (caches_keys cs) then cs else cs @ [(name, [])])"

definition caches_delete :: "string \<Rightarrow> cache_storage \<Rightarrow> cache_storage" where
  "caches_delete name cs = filter (\<lambda>e. fst e \<noteq> name) cs"

fun caches_match :: "string \<Rightarrow> cache_storage \<Rightarrow> response option" where
  "caches_match url [] = None"
| "caches_match url (e # cs) =
     (case map_of (snd e) url of Some r \<Rightarrow> Some r | None \<Rightarrow> caches_match url cs)"

definition cache_put :: "string \<Rightarrow> response \<Rightarrow> cache \<Rightarrow> cache" where
  "cache_put url r c =
     (if resp_status r = 206 then c else filter (\<lambda>e. fst e \<noteq> url) c @ [(url, r)])"

text \<open>\<open>caches.open(name).then(cache => cache.put(request, response))\<close>.\<close>

definition caches_open_put :: "string \<Rightarrow> string \<Rightarrow> response \<Rightarrow> cache_storage \<Rightarrow> cache_storage" where
  "caches_open_put name url r cs =
     map (\<lambda>e. if fst e = name then (fst e, cache_put url r (snd e)) else e) (caches_open name cs)"

text \<open>
  The network as the router sees it: \<open>fetch(request)\<close> resolves with a response or
  rejects (\<open>None\<close>).
\<close>

type_synonym network = "request \<Rightarrow> response option"

text \<open>
  The \<open>install\<close> listener: \<open>cache.addAll\<close> fetches every static file and stores the
  responses when all of them arrived with an ok status; otherwise it rejects and stores
  nothing.  The cache has been created by \<open>caches.open\<close> either way.  The result says
  whether the installation succeeded.
\<close>

definition static_request :: "string \<Rightarrow> string \<Rightarrow> request" where
  "static_request self_origin file =
     \<lparr>req_method = ''GET'', req_origin = self_origin, req_pathname = file, req_search = []\<rparr>"

definition addAll_accepts :: "response option \<Rightarrow> bool" where
  "addAll_accepts x = (case x of None \<Rightarrow> False
                        | Some r \<Rightarrow> response_ok (resp_status r) \<and> resp_status r \<noteq> 206)"

definition install :: "network \<Rightarrow> string \<Rightarrow> cache_storage \<Rightarrow> bool \<times> cache_storage" where
  "install fetch self_origin cs =
     (let cs1 = caches_open CACHE_NAME cs;
          fetched = map (\<lambda>file. (self_origin @ file, fetch (static_request self_origin file)))
                        STATIC_FILES
      in if list_all (\<lambda>p. addAll_accepts (snd p)) fetched
         then (True, fold (\<lambda>p. case snd p of Some r \<Rightarrow> caches_open_put CACHE_NAME (fst p) r
                                   | None \<Rightarrow> id) fetched cs1)
         else (False, cs1))"

text \<open>
  The \<open>activate\<close> listener: one \<open>caches.delete\<close> for every name of \<open>caches.keys()\<close> that
  is not \<open>CACHE_NAME\<close>.
\<close>

definition activate :: "cache_storage \<Rightarrow> cache_storage" where
  "activate cs =
     fold (\<lambda>cacheName acc. if cacheName \<noteq> CACHE_NAME then caches_delete cacheName acc else acc)
          (caches_keys cs) cs"

text \<open>
  The \<open>fetch\<close> listener.  It either leaves the request alone or answers it
  (\<open>event.respondWith\<close>) with a promise that resolves to a response or to \<open>undefined\<close>.
  The outcome also holds the cache storage afterwards and the requests sent to the network.
  \<open>self_origin\<close> is the origin of the service worker, against which the URL
  \<open>'/offline.html'\<close> is resolved.
\<close>

datatype fetch_answer = NotIntercepted | RespondWith "response option"

record fetch_outcome =
  answer :: fetch_answer
  caches_after :: cache_storage
  fetched :: "request list"

definition is_static_file :: "string \<Rightarrow> bool" where
  "is_static_file pathname = list_ex (\<lambda>file. suffix file pathname \<or> pathname = file) STATIC_FILES"

definition offline_response :: response where
  "offline_response =
     \<lparr>resp_status = 503,
      resp_headers = [(''Content-Type'', ''application/json'')],
      resp_body = ''{'' @ [CHR 0x22] @ ''error'' @ [CHR 0x22] @ '':'' @ [CHR 0x22]
                  @ ''Offline - No cached data available'' @ [CHR 0x22] @ '','' @ [CHR 0x22]
                  @ ''offline'' @ [CHR 0x22] @ '':true}''\<rparr>"

definition fetch_listener :: "network \<Rightarrow> string \<Rightarrow> cache_storage \<Rightarrow> request \<Rightarrow> fetch_outcome" where
  "fetch_listener fetch self_origin cs req =
     (if req_method req \<noteq> ''GET''
      then \<lparr>answer = NotIntercepted, caches_after = cs, fetched = []\<rparr>
      else if is_static_file (req_pathname req)
      then (case caches_match (req_url req) cs of
              Some response \<Rightarrow>
                \<lparr>answer = RespondWith (Some response), caches_after = cs, fetched = []\<rparr>
            | None \<Rightarrow>
                (case fetch req of
                   Some fetchResponse \<Rightarrow>
                     \<lparr>answer = RespondWith (Some fetchResponse),
                      caches_after = caches_open_put CACHE_NAME (req_url req) fetchResponse cs,
                      fetched = [req]\<rparr>
                 | None \<Rightarrow>
                     \<lparr>answer = RespondWith
                        (if req_pathname req = ''/'' \<or> req_pathname req = ''/index.html''
                         then caches_match (self_origin @ ''/offline.html'') cs else None),
                      caches_after = cs, fetched = [req]\<rparr>))
      else if prefix ''/api/'' (req_pathname req)
      then (case fetch req of
              Some response \<Rightarrow>
                \<lparr>answer = RespondWith (Some response),
                 caches_after = (if response_ok (resp_status response)
                                 then caches_open_put CACHE_NAME (req_url req) response cs
                                 else cs),
                 fetched = [req]\<rparr>
            | None \<Rightarrow>
                (case caches_match (req_url req) cs of
                   Some cachedResponse \<Rightarrow>
                     \<lparr>answer = RespondWith (Some cachedResponse), caches_after = cs,
                      fetched = [req]\<rparr>
                 | None \<Rightarrow>
                     \<lparr>answer = RespondWith (Some offline_response), caches_after = cs,
                      fetched = [req]\<rparr>))
      else (case fetch req of
              Some response \<Rightarrow>
                \<lparr>answer = RespondWith (Some response), caches_after = cs, fetched = [req]\<rparr>
            | None \<Rightarrow>
                \<lparr>answer = RespondWith
                   (case caches_match (req_url req) cs of
                      Some response \<Rightarrow> Some response
                    | None \<Rightarrow> caches_match (self_origin @ ''/offline.html'') cs),
                 caches_after = cs, fetched = [req]\<rparr>))"

section \<open>Auto-sync manager (network monitor)\<close>

text \<open>
  The fields of an \<open>AutoSyncManager\<close>, and with them what the object leaves in its host:
  the timeouts that are set and have neither fired nor been cleared, the number of
  \<open>setTimeout\<close> calls made so far, and the number of calls of the sync callback made so far.
  \<open>setTimeout\<close> returns a fresh positive handle, here the number of the call, so a handle
  stored in \<open>retryTimer\<close> is truthy.
\<close>

record AutoSyncManager =
  retryInterval :: nat
  maxRetries :: nat
  retryCount :: nat
  retryTimer :: "nat option"
  active_timers :: "nat list"
  timeouts_set :: nat
  callback_calls :: nat

record options =
  opt_retryInterval :: "nat option"
  opt_maxRetries :: "nat option"

text \<open>
  The options are counts and milliseconds, natural numbers here.
  \<open>x || d\<close> on an optional number: \<open>undefined\<close> and \<open>0\<close> are falsy.
\<close>

definition or_default :: "nat option \<Rightarrow> nat \<Rightarrow> nat" where
  "or_default x d = (case x of None \<Rightarrow> d | Some n \<Rightarrow> if n = 0 then d else n)"

definition new_AutoSyncManager :: "options \<Rightarrow> AutoSyncManager" where
  "new_AutoSyncManager opts =
     \<lparr>retryInterval = or_default (opt_retryInterval opts) 30000,
      maxRetries = or_default (opt_maxRetries opts) 5,
      retryCount = 0, retryTimer = None,
      active_timers = [], timeouts_set = 0, callback_calls = 0\<rparr>"

definition clearRetryTimer :: "AutoSyncManager \<Rightarrow> AutoSyncManager" where
  "clearRetryTimer m =
     (case retryTimer m of
        None \<Rightarrow> m
      | Some t \<Rightarrow> m\<lparr>retryTimer := None, active_timers := removeAll t (active_timers m)\<rparr>)"

definition scheduleRetry :: "AutoSyncManager \<Rightarrow> AutoSyncManager" where
  "scheduleRetry m =
     (if retryCount m \<ge> maxRetries m then m\<lparr>retryCount := 0\<rparr>
      else (let m1 = clearRetryTimer (m\<lparr>retryCount := Suc (retryCount m)\<rparr>);
                t = Suc (timeouts_set m1)
            in m1\<lparr>retryTimer := Some t, active_timers := active_timers m1 @ [t],
                  timeouts_set := t\<rparr>))"

text \<open>
  \<open>attemptSync\<close>: \<open>online\<close> is \<open>navigator.onLine\<close> at the call, \<open>resolves\<close> says whether
  the promise of the sync callback resolves (or rejects) when it is called.  The method is
  called by its users, by the listener that \<open>startMonitoring\<close> registers for the
  \<open>online\<close> event, and by the retry timeout.
\<close>

definition attemptSync :: "bool \<Rightarrow> bool \<Rightarrow> AutoSyncManager \<Rightarrow> AutoSyncManager" where
  "attemptSync online resolves m =
     (if \<not> online then m
      else (let m1 = m\<lparr>callback_calls := Suc (callback_calls m)\<rparr>
            in if resolves then clearRetryTimer (m1\<lparr>retryCount := 0\<rparr>)
               else scheduleRetry m1))"


text \<open>A timeout that is still set fires: the host drops it and runs its function.\<close>

definition timer_fires :: "bool \<Rightarrow> bool \<Rightarrow> nat \<Rightarrow> AutoSyncManager \<Rightarrow> AutoSyncManager" where
  "timer_fires online resolves t m =
     (if t \<in> set (active_timers m)
      then attemptSync online resolves (m\<lparr>active_timers := removeAll t (active_timers m)\<rparr>)
      else m)"

text \<open>
  What follows a trigger when nothing but the timeouts acts on the manager and the sync
  callback rejects every time: the timeouts fire one after the other, as long as one is
  set.  The list gives \<open>navigator.onLine\<close> at each firing.
\<close>

fun run_retries :: "bool list \<Rightarrow> AutoSyncManager \<Rightarrow> AutoSyncManager" where
  "run_retries [] m = m"
| "run_retries (online # rest) m =
     (case active_timers m of
        [] \<Rightarrow> m
      | t # _ \<Rightarrow> run_retries rest (timer_fires online False t m))"

text \<open>Every timeout that is set is the one stored in \<open>retryTimer\<close>.\<close>

definition timer_inv :: "AutoSyncManager \<Rightarrow> bool" where
  "timer_inv m = (set (active_timers m) \<subseteq> set_option (retryTimer m))"




section \<open>Notions used in the statements\<close>

text \<open>
  The status that the last of the calls handed to \<open>Promise.all\<close> for the key \<open>k\<close> asks
  for, if there is such a call.
\<close>

fun last_status :: "string \<Rightarrow> (string \<times> string) option list \<Rightarrow> string option" where
  "last_status k [] = None"
| "last_status k (c # cs) =
     (case last_status k cs of
        Some s \<Rightarrow> Some s
      | None \<Rightarrow> (case c of Some (k', s') \<Rightarrow> if k' = k then Some s' else None | None \<Rightarrow> None))"

text \<open>
  What the two copies of \<open>updateTranscriptStatus\<close> have in common: a stored record gets
  the status and is put back, a missing one is a rejection.
\<close>

definition is_update :: "update_fun \<Rightarrow> bool" where
  "is_update upd = (\<forall>k s st. case store_get k st of
        Some r \<Rightarrow> upd k s st = Inr (store_put (r\<lparr>sync_status := s\<rparr>) st)
      | None \<Rightarrow> (\<exists>e. upd k s st = Inl e))"

text \<open>
  The retries that a manager can still schedule before it reaches the cap, as long as
  nothing but its timeout acts on it.
\<close>

definition retry_budget :: "AutoSyncManager \<Rightarrow> nat" where
  "retry_budget m = (if active_timers m = [] then 0 else maxRetries m - retryCount m)"

section \<open>Example data\<close>

text \<open>A store with one pending record, and three servers.\<close>

definition example_record :: transcript where
  "example_record = \<lparr>uuid = ''u1'', speaker_id = ''7'', transcript_text = ''halo'',
     updated_at = 1700000000, sync_status = ''pending''\<rparr>"

definition example_store :: object_store where
  "example_store = [example_record]"

definition unrecognized_network :: sync_network where
  "unrecognized_network items =
     FetchResponse 200 (Json (Some [\<lparr>result_uuid = ''u1'', result_status = ''rejected''\<rparr>]))"

definition created_network :: sync_network where
  "created_network items =
     FetchResponse 200 (Json (Some [\<lparr>result_uuid = ''u1'', result_status = ''created''\<rparr>]))"

definition failing_network :: sync_network where
  "failing_network items = FetchRejected"

definition synced_store :: object_store where
  "synced_store = [example_record\<lparr>sync_status := ''synced''\<rparr>]"

text \<open>The options of a manager built without any; requests, responses, caches and networks.\<close>

definition default_options :: options where
  "default_options = \<lparr>opt_retryInterval = None, opt_maxRetries = None\<rparr>"



definition api_response :: response where
  "api_response = \<lparr>resp_status = 200, resp_headers = [], resp_body = ''[1]''\<rparr>"

definition stale_response :: response where
  "stale_response = \<lparr>resp_status = 200, resp_headers = [], resp_body = ''[0]''\<rparr>"

definition api_dir_request :: request where
  "api_dir_request = \<lparr>req_method = ''GET'', req_origin = ''https://capi.example'',
     req_pathname = ''/api/interviews/'', req_search = []\<rparr>"

definition api_request :: request where
  "api_request = \<lparr>req_method = ''GET'', req_origin = ''https://capi.example'',
     req_pathname = ''/api/interviews'', req_search = []\<rparr>"

definition example_caches :: cache_storage where
  "example_caches = [(''smartcapi-v0'', []),
     (''smartcapi-v1'', [(''https://capi.example/api/interviews/'', stale_response)])]"

definition live_network :: network where
  "live_network r = Some api_response"

definition dead_network :: network where
  "dead_network r = None"

section \<open>Properties of the local record store\<close>

lemma store_get_put_same: "store_get (uuid r) (store_put r st) = Some r"
  by (induction st) auto

lemma store_get_put_other: "k \<noteq> uuid r \<Longrightarrow> store_get k (store_put r st) = store_get k st"
  by (induction st) auto

lemma store_get_uuid: "store_get k st = Some r \<Longrightarrow> uuid r = k"
  by (induction st) (auto split: if_splits)

lemma store_get_mem: "store_get k st = Some r \<Longrightarrow> r \<in> set st"
  by (induction st) (auto split: if_splits)

lemma store_get_of_mem: "r \<in> set st \<Longrightarrow> \<exists>r'. store_get (uuid r) st = Some r'"
  by (induction st) auto

text \<open>
  Keys stay unique under \<open>store_put\<close>, and a saved transcript is stored as pending.
\<close>

lemma store_put_uuids: "set (map uuid (store_put r st)) = insert (uuid r) (set (map uuid st))"
  by (induction st) auto

lemma store_put_distinct: "distinct (map uuid st) \<Longrightarrow> distinct (map uuid (store_put r st))"
proof (induction st)
  case Nil
  then show ?case by simp
next
  case (Cons x xs)
  then show ?case using store_put_uuids [of r xs] by auto
qed

lemma saveTranscript_pending:
  "store_get u (saveTranscript u now spk txt st)
   = Some \<lparr>uuid = u, speaker_id = spk, transcript_text = txt,
           updated_at = of_nat now / 1000, sync_status = ''pending''\<rparr>"
  using store_get_put_same [of "\<lparr>uuid = u, speaker_id = spk, transcript_text = txt,
           updated_at = of_nat now / 1000, sync_status = ''pending''\<rparr>" st]
  by (simp add: saveTranscript_def)

section \<open>Properties of the sync orchestrator\<close>

lemma is_update_local: "is_update updateTranscriptStatus"
  by (auto simp: is_update_def updateTranscriptStatus_def split: option.splits)

lemma is_update_sw: "is_update sw_updateTranscriptStatus"
  by (auto simp: is_update_def sw_updateTranscriptStatus_def split: option.splits)

lemma store_get_update:
  assumes "store_get k' st = Some r"
  shows "store_get k (store_put (r\<lparr>sync_status := s\<rparr>) st) =
         (if k = k' then Some (r\<lparr>sync_status := s\<rparr>) else store_get k st)"
proof -
  have u: "uuid r = k'" using assms by (rule store_get_uuid)
  show ?thesis
  proof (cases "k = k'")
    case True
    then show ?thesis using store_get_put_same [of "r\<lparr>sync_status := s\<rparr>" st] u by simp
  next
    case False
    then show ?thesis using store_get_put_other [of k "r\<lparr>sync_status := s\<rparr>" st] u by simp
  qed
qed

lemma is_update_Some:
  "is_update upd \<Longrightarrow> store_get k st = Some r \<Longrightarrow>
   upd k s st = Inr (store_put (r\<lparr>sync_status := s\<rparr>) st)"
  unfolding is_update_def by (drule spec [of _ k], drule spec [of _ s], drule spec [of _ st]) simp

lemma is_update_None:
  "is_update upd \<Longrightarrow> store_get k st = None \<Longrightarrow> \<exists>e. upd k s st = Inl e"
  unfolding is_update_def by (drule spec [of _ k], drule spec [of _ s], drule spec [of _ st]) simp

lemma promise_all_store:
  assumes "is_update upd"
  shows "store_get k (snd (promise_all upd calls st)) =
         (case last_status k calls of
            None \<Rightarrow> store_get k st
          | Some s \<Rightarrow> map_option (\<lambda>r. r\<lparr>sync_status := s\<rparr>) (store_get k st))"
proof (induction calls arbitrary: st)
  case Nil
  then show ?case by simp
next
  case (Cons c cs)
  show ?case
  proof (cases c)
    case None
    then show ?thesis using Cons.IH [of st] by (simp split: option.splits)
  next
    case (Some p)
    obtain k' s' where p: "p = (k', s')" by (cases p)
    show ?thesis
    proof (cases "store_get k' st")
      case None
      then obtain e where e: "upd k' s' st = Inl e"
        using is_update_None [OF assms] by blast
      have "snd (promise_all upd (c # cs) st) = snd (promise_all upd cs st)"
        using e \<open>c = Some p\<close> p by simp
      moreover have "k = k' \<Longrightarrow> store_get k st = None" using None by simp
      ultimately show ?thesis using Cons.IH [of st] \<open>c = Some p\<close> p
        by (cases "last_status k cs") (auto)
    next
      case (Some r)
      let ?st1 = "store_put (r\<lparr>sync_status := s'\<rparr>) st"
      have "upd k' s' st = Inr ?st1"
        using is_update_Some [OF assms Some] .
      then have step: "snd (promise_all upd (c # cs) st) = snd (promise_all upd cs ?st1)"
        using \<open>c = Some p\<close> p by simp
      have g: "store_get k ?st1 = (if k = k' then Some (r\<lparr>sync_status := s'\<rparr>) else store_get k st)"
        using store_get_update [OF Some] .
      show ?thesis
        unfolding step Cons.IH [of ?st1] g
        using Some \<open>c = Some p\<close> p
        by (cases "last_status k cs") (simp_all)
    qed
  qed
qed

lemma promise_all_no_error:
  assumes "is_update upd"
  shows "(\<And>k s. Some (k, s) \<in> set calls \<Longrightarrow> store_get k st \<noteq> None)
         \<Longrightarrow> fst (promise_all upd calls st) = None"
proof (induction calls arbitrary: st)
  case Nil
  then show ?case by simp
next
  case (Cons c cs)
  show ?case
  proof (cases c)
    case None
    then show ?thesis using Cons.IH [of st] Cons.prems by simp
  next
    case (Some p)
    obtain k' s' where p: "p = (k', s')" by (cases p)
    from Cons.prems [of k' s'] Some p obtain r where r: "store_get k' st = Some r" by auto
    let ?st1 = "store_put (r\<lparr>sync_status := s'\<rparr>) st"
    have u: "upd k' s' st = Inr ?st1" using is_update_Some [OF assms r] .
    have "fst (promise_all upd cs ?st1) = None"
    proof (rule Cons.IH)
      fix k s assume "Some (k, s) \<in> set cs"
      then have "store_get k st \<noteq> None" using Cons.prems [of k s] by simp
      then show "store_get k ?st1 \<noteq> None" by (simp add: store_get_update [OF r])
    qed
    then show ?thesis using u Some p by simp
  qed
qed

lemma last_status_None:
  "(\<And>c s. c \<in> set calls \<Longrightarrow> c \<noteq> Some (k, s)) \<Longrightarrow> last_status k calls = None"
proof (induction calls)
  case Nil
  then show ?case by simp
next
  case (Cons c cs)
  have "last_status k cs = None" using Cons by simp
  moreover have "\<And>s. c \<noteq> Some (k, s)" using Cons.prems by simp
  ultimately show ?case by (auto split: option.splits)
qed

lemma last_status_distinct:
  assumes key: "\<And>e k s. call e = Some (k, s) \<Longrightarrow> k = result_uuid e"
  shows "distinct (map result_uuid rs) \<Longrightarrow> e \<in> set rs \<Longrightarrow> call e = Some (k, s)
         \<Longrightarrow> last_status k (map call rs) = Some s"
proof (induction rs)
  case Nil
  then show ?case by simp
next
  case (Cons x xs)
  have k: "k = result_uuid e" using key Cons.prems(3) .
  show ?case
  proof (cases "e \<in> set xs")
    case True
    then have "last_status k (map call xs) = Some s" using Cons by simp
    then show ?thesis by simp
  next
    case False
    then have ex: "e = x" using Cons.prems(2) by simp
    have "last_status k (map call xs) = None"
    proof (rule last_status_None)
      fix c s' assume "c \<in> set (map call xs)"
      then obtain y where y: "y \<in> set xs" "c = call y" by auto
      show "c \<noteq> Some (k, s')"
      proof
        assume "c = Some (k, s')"
        then have "k = result_uuid y" using key y(2) by simp
        then show False using Cons.prems(1) y(1) k ex by auto
      qed
    qed
    then show ?thesis using ex Cons.prems(3) by simp
  qed
qed

lemma sw_result_call_key: "sw_result_call e = Some (k, s) \<Longrightarrow> k = result_uuid e"
  by (simp add: sw_result_call_def Let_def)

lemma result_call_key: "result_call e = Some (k, s) \<Longrightarrow> k = result_uuid e"
  by (auto simp: result_call_def split: if_splits)

text \<open>What the try block does on an ok response that carries a results array.\<close>

lemma sync_try_results:
  assumes "fetch items = FetchResponse status (Json (Some results))" "response_ok status"
  shows "snd (sync_try upd call fetch items st) = snd (promise_all upd (map call results) st)"
    and "fst (promise_all upd (map call results) st) = None
         \<Longrightarrow> fst (sync_try upd call fetch items st) = Inr ()"
  using assms by (auto simp: sync_try_def split: prod.splits option.splits)

lemma sync_try_applied:
  assumes upd: "is_update upd"
    and key: "\<And>e k s. call e = Some (k, s) \<Longrightarrow> k = result_uuid e"
    and resp: "fetch items = FetchResponse status (Json (Some results))" "response_ok status"
    and dist: "distinct (map result_uuid results)"
    and e: "e \<in> set results" "call e = Some (k, s)"
    and r: "store_get k st = Some r"
  shows "store_get k (snd (sync_try upd call fetch items st)) = Some (r\<lparr>sync_status := s\<rparr>)"
proof -
  have "last_status k (map call results) = Some s"
    using last_status_distinct [of call, OF key dist e] .
  then show ?thesis
    using sync_try_results(1) [of fetch items status results upd call st, OF resp]
      promise_all_store [OF upd, of k "map call results" st] r by simp
qed

lemma sw_store_after:
  "store_after (sw_syncWithServer fetch st) =
     (if getPendingTranscripts st = [] then st
      else snd (sync_try sw_updateTranscriptStatus sw_result_call fetch (getPendingTranscripts st) st))"
  by (simp add: sw_syncWithServer_def sw_getPendingTranscripts_def getPendingTranscripts_def
      Let_def split: prod.splits sum.splits)

lemma client_store_after:
  "store_after (syncWithServer fetch st) =
     (if getPendingTranscripts st = [] then st
      else snd (sync_try updateTranscriptStatus result_call fetch (getPendingTranscripts st) st))"
  by (simp add: syncWithServer_def Let_def split: prod.splits sum.splits)

lemma sw_thrown:
  "thrown (sw_syncWithServer fetch st) =
     (if getPendingTranscripts st = [] then None
      else (case fst (sync_try sw_updateTranscriptStatus sw_result_call fetch
                        (getPendingTranscripts st) st) of Inl e \<Rightarrow> Some e | Inr _ \<Rightarrow> None))"
  by (simp add: sw_syncWithServer_def sw_getPendingTranscripts_def getPendingTranscripts_def
      Let_def split: prod.splits sum.splits)

lemma client_thrown: "thrown (syncWithServer fetch st) = None"
  by (simp add: syncWithServer_def Let_def split: prod.splits sum.splits)

lemma pending_in_store: "r \<in> set (getPendingTranscripts st) \<Longrightarrow> r \<in> set st"
  by (simp add: getPendingTranscripts_def)

lemma example_pending: "getPendingTranscripts example_store = [example_record]"
  by (simp add: getPendingTranscripts_def example_store_def example_record_def)

text \<open>
  C1.  The service worker's copy maps every status other than \<open>created\<close> and \<open>updated\<close> to
  \<open>conflict\<close> (lemma \<open>sw_conservative_mapping\<close> below).  The client's copy has no branch
  for a status it does not know (lemma \<open>client_unrecognized_ignored\<close> below): on the
  response \<open>[{uuid: 'u1', status: 'rejected'}]\<close> it calls no update, returns normally, and
  the record is still \<open>pending\<close>, where the service worker's copy makes it \<open>conflict\<close>.
\<close>

theorem client_unrecognized_status_stays_pending:
  "map_option sync_status
     (store_get ''u1'' (store_after (syncWithServer unrecognized_network example_store)))
   = Some ''pending''
   \<and> thrown (syncWithServer unrecognized_network example_store) = None
   \<and> map_option sync_status
     (store_get ''u1'' (store_after (sw_syncWithServer unrecognized_network example_store)))
   = Some ''conflict''"
  by (simp add: syncWithServer_def sw_syncWithServer_def getPendingTranscripts_def
      sw_getPendingTranscripts_def example_store_def example_record_def
      unrecognized_network_def sync_try_def response_ok_def result_call_def sw_result_call_def
      sw_updateTranscriptStatus_def Let_def)

lemma sw_conservative_mapping:
  assumes resp: "fetch (getPendingTranscripts st) = FetchResponse status (Json (Some results))"
    and ok: "response_ok status"
    and pend: "getPendingTranscripts st \<noteq> []"
    and dist: "distinct (map result_uuid results)"
    and e: "e \<in> set results"
    and r: "store_get (result_uuid e) st = Some r"
  shows "store_get (result_uuid e) (store_after (sw_syncWithServer fetch st)) =
         Some (r\<lparr>sync_status :=
            (if result_status e = ''created'' \<or> result_status e = ''updated''
             then ''synced'' else ''conflict'')\<rparr>)"
proof -
  let ?s = "if result_status e = ''created'' \<or> result_status e = ''updated''
            then ''synced'' else ''conflict''"
  have c: "sw_result_call e = Some (result_uuid e, ?s)"
    by (simp add: sw_result_call_def)
  show ?thesis
    unfolding sw_store_after using pend
      sync_try_applied [of sw_updateTranscriptStatus sw_result_call fetch
        "getPendingTranscripts st" status results e "result_uuid e" ?s st r,
        OF is_update_sw sw_result_call_key resp ok dist e c r]
    by simp
qed

lemma client_recognized_mapping:
  assumes resp: "fetch (getPendingTranscripts st) = FetchResponse status (Json (Some results))"
    and ok: "response_ok status"
    and pend: "getPendingTranscripts st \<noteq> []"
    and dist: "distinct (map result_uuid results)"
    and e: "e \<in> set results"
    and known: "result_status e = ''created'' \<or> result_status e = ''updated''
                \<or> result_status e = ''conflict''"
    and r: "store_get (result_uuid e) st = Some r"
  shows "store_get (result_uuid e) (store_after (syncWithServer fetch st)) =
         Some (r\<lparr>sync_status :=
            (if result_status e = ''created'' \<or> result_status e = ''updated''
             then ''synced'' else ''conflict'')\<rparr>)"
proof -
  let ?s = "if result_status e = ''created'' \<or> result_status e = ''updated''
            then ''synced'' else ''conflict''"
  have c: "result_call e = Some (result_uuid e, ?s)"
    using known by (auto simp: result_call_def)
  show ?thesis
    unfolding client_store_after using pend
      sync_try_applied [of updateTranscriptStatus result_call fetch
        "getPendingTranscripts st" status results e "result_uuid e" ?s st r,
        OF is_update_local result_call_key resp ok dist e c r]
    by simp
qed

text \<open>
  The client's copy leaves the record of a result with any other status as it is.
\<close>

lemma client_unrecognized_ignored:
  assumes resp: "fetch (getPendingTranscripts st) = FetchResponse status (Json (Some results))"
    and ok: "response_ok status"
    and dist: "distinct (map result_uuid results)"
    and e: "e \<in> set results"
    and unknown: "result_status e \<noteq> ''created''" "result_status e \<noteq> ''updated''"
      "result_status e \<noteq> ''conflict''"
  shows "store_get (result_uuid e) (store_after (syncWithServer fetch st))
         = store_get (result_uuid e) st"
proof (cases "getPendingTranscripts st = []")
  case True
  then show ?thesis by (simp add: client_store_after)
next
  case False
  have none: "result_call e = None" using unknown by (simp add: result_call_def)
  have inj: "inj_on result_uuid (set results)" using dist by (simp add: distinct_map)
  have "last_status (result_uuid e) (map result_call results) = None"
  proof (rule last_status_None)
    fix c s assume "c \<in> set (map result_call results)"
    then obtain y where y: "y \<in> set results" "c = result_call y" by auto
    show "c \<noteq> Some (result_uuid e, s)"
    proof
      assume c: "c = Some (result_uuid e, s)"
      then have "result_uuid e = result_uuid y" using result_call_key [of y] y(2) by simp
      then have "y = e" using inj y(1) e by (auto dest: inj_onD)
      then show False using c y(2) none by simp
    qed
  qed
  then show ?thesis
    using False sync_try_results(1) [of fetch "getPendingTranscripts st" status results
        updateTranscriptStatus result_call st, OF resp ok]
      promise_all_store [OF is_update_local, of "result_uuid e" "map result_call results" st]
    by (simp add: client_store_after)
qed

lemma sync_try_no_error:
  assumes upd: "is_update upd"
    and key: "\<And>e k s. call e = Some (k, s) \<Longrightarrow> k = result_uuid e"
    and resp: "fetch items = FetchResponse status (Json (Some results))" "response_ok status"
    and sub: "\<And>e. e \<in> set results \<Longrightarrow> store_get (result_uuid e) st \<noteq> None"
  shows "fst (sync_try upd call fetch items st) = Inr ()"
proof -
  have "fst (promise_all upd (map call results) st) = None"
  proof (rule promise_all_no_error [OF upd])
    fix k s assume "Some (k, s) \<in> set (map call results)"
    then obtain e where e: "e \<in> set results" "call e = Some (k, s)" by auto
    then have "k = result_uuid e" using key by simp
    then show "store_get k st \<noteq> None" using sub e(1) by simp
  qed
  then show ?thesis
    using sync_try_results(2) [of fetch items status results upd call st, OF resp] by simp
qed

lemma store_put_keys:
  "store_get (uuid r) st \<noteq> None \<Longrightarrow> map uuid (store_put r st) = map uuid st"
  by (induction st) auto

text \<open>
  C2.  On an ok response whose results carry distinct uuids, each the uuid of a submitted
  record, both copies of the sync operation return normally, and each result is applied
  to the record stored under the result's uuid: the record gets the mapped status (in the
  client for the statuses \<open>created\<close>, \<open>updated\<close> and \<open>conflict\<close>).  In particular every submitted
  record whose uuid comes back with \<open>created\<close> or \<open>updated\<close> ends \<open>synced\<close>.
\<close>

theorem results_applied_by_uuid:
  assumes resp: "fetch (getPendingTranscripts st) = FetchResponse status (Json (Some results))"
    and ok: "response_ok status"
    and dist: "distinct (map result_uuid results)"
    and sub: "\<forall>e\<in>set results. \<exists>r\<in>set (getPendingTranscripts st). uuid r = result_uuid e"
  shows "thrown (syncWithServer fetch st) = None \<and> thrown (sw_syncWithServer fetch st) = None
    \<and> (\<forall>e\<in>set results. \<forall>r. store_get (result_uuid e) st = Some r \<longrightarrow>
          store_get (result_uuid e) (store_after (sw_syncWithServer fetch st)) =
            Some (r\<lparr>sync_status :=
              (if result_status e = ''created'' \<or> result_status e = ''updated''
               then ''synced'' else ''conflict'')\<rparr>))
    \<and> (\<forall>e\<in>set results. \<forall>r. store_get (result_uuid e) st = Some r \<longrightarrow>
          result_status e = ''created'' \<or> result_status e = ''updated''
            \<or> result_status e = ''conflict'' \<longrightarrow>
          store_get (result_uuid e) (store_after (syncWithServer fetch st)) =
            Some (r\<lparr>sync_status :=
              (if result_status e = ''created'' \<or> result_status e = ''updated''
               then ''synced'' else ''conflict'')\<rparr>))
    \<and> (\<forall>r\<in>set (getPendingTranscripts st). \<forall>e\<in>set results.
          result_uuid e = uuid r \<longrightarrow>
          result_status e = ''created'' \<or> result_status e = ''updated'' \<longrightarrow>
          map_option sync_status (store_get (uuid r) (store_after (syncWithServer fetch st)))
            = Some ''synced''
          \<and> map_option sync_status
              (store_get (uuid r) (store_after (sw_syncWithServer fetch st)))
            = Some ''synced'')"
proof (cases "getPendingTranscripts st = []")
  case True
  then have "results = []" using sub by (cases results) auto
  then show ?thesis using True by (simp add: client_thrown sw_thrown)
next
  case pend: False
  have known: "\<And>e. e \<in> set results \<Longrightarrow> store_get (result_uuid e) st \<noteq> None"
  proof -
    fix e assume "e \<in> set results"
    then obtain r where "r \<in> set (getPendingTranscripts st)" "uuid r = result_uuid e"
      using sub by blast
    then show "store_get (result_uuid e) st \<noteq> None"
      using store_get_of_mem [of r st] pending_in_store [of r st] by auto
  qed
  have t: "thrown (sw_syncWithServer fetch st) = None"
    unfolding sw_thrown
    using sync_try_no_error [of sw_updateTranscriptStatus sw_result_call fetch
        "getPendingTranscripts st" status results st,
        OF is_update_sw sw_result_call_key resp ok known]
    by simp
  have sw: "\<And>e r. e \<in> set results \<Longrightarrow> store_get (result_uuid e) st = Some r \<Longrightarrow>
      store_get (result_uuid e) (store_after (sw_syncWithServer fetch st)) =
        Some (r\<lparr>sync_status :=
          (if result_status e = ''created'' \<or> result_status e = ''updated''
           then ''synced'' else ''conflict'')\<rparr>)"
    using sw_conservative_mapping [where fetch = fetch and st = st, OF resp ok pend dist]
    by blast
  have cl: "\<And>e r. e \<in> set results \<Longrightarrow> store_get (result_uuid e) st = Some r \<Longrightarrow>
      result_status e = ''created'' \<or> result_status e = ''updated''
        \<or> result_status e = ''conflict'' \<Longrightarrow>
      store_get (result_uuid e) (store_after (syncWithServer fetch st)) =
        Some (r\<lparr>sync_status :=
          (if result_status e = ''created'' \<or> result_status e = ''updated''
           then ''synced'' else ''conflict'')\<rparr>)"
    using client_recognized_mapping [where fetch = fetch and st = st, OF resp ok pend dist]
    by blast
  have synced: "\<And>r e. r \<in> set (getPendingTranscripts st) \<Longrightarrow> e \<in> set results \<Longrightarrow>
      result_uuid e = uuid r \<Longrightarrow>
      result_status e = ''created'' \<or> result_status e = ''updated'' \<Longrightarrow>
      map_option sync_status (store_get (uuid r) (store_after (syncWithServer fetch st)))
        = Some ''synced''
      \<and> map_option sync_status (store_get (uuid r) (store_after (sw_syncWithServer fetch st)))
        = Some ''synced''"
  proof -
    fix r e
    assume e: "e \<in> set results" and u: "result_uuid e = uuid r"
      and c: "result_status e = ''created'' \<or> result_status e = ''updated''"
    from known [OF e] obtain r' where r': "store_get (result_uuid e) st = Some r'" by auto
    have "result_status e = ''created'' \<or> result_status e = ''updated''
        \<or> result_status e = ''conflict''" using c by blast
    from cl [OF e r' this] sw [OF e r'] c u
    show "map_option sync_status (store_get (uuid r) (store_after (syncWithServer fetch st)))
        = Some ''synced''
      \<and> map_option sync_status (store_get (uuid r) (store_after (sw_syncWithServer fetch st)))
        = Some ''synced''"
      by auto
  qed
  show ?thesis
    using t sw cl synced by (simp add: client_thrown)
qed

theorem results_applied_by_uuid_witness:
  "created_network (getPendingTranscripts example_store) =
     FetchResponse 200 (Json (Some [\<lparr>result_uuid = ''u1'', result_status = ''created''\<rparr>]))
   \<and> response_ok 200
   \<and> distinct (map result_uuid [\<lparr>result_uuid = ''u1'', result_status = ''created''\<rparr>])
   \<and> uuid example_record = ''u1''
   \<and> example_record \<in> set (getPendingTranscripts example_store)
   \<and> thrown (sw_syncWithServer created_network example_store) = None
   \<and> store_get ''u1'' (store_after (sw_syncWithServer created_network example_store)) =
       Some (example_record\<lparr>sync_status := ''synced''\<rparr>)
   \<and> store_get ''u1'' (store_after (syncWithServer created_network example_store)) =
       Some (example_record\<lparr>sync_status := ''synced''\<rparr>)"
proof -
  let ?rs = "[\<lparr>result_uuid = ''u1'', result_status = ''created''\<rparr>]"
  have resp: "created_network (getPendingTranscripts example_store) =
     FetchResponse 200 (Json (Some ?rs))"
    by (simp add: created_network_def)
  have ok: "response_ok 200" by (simp add: response_ok_def)
  have dist: "distinct (map result_uuid ?rs)" by simp
  have u: "uuid example_record = ''u1''" by (simp add: example_record_def)
  have mem: "example_record \<in> set (getPendingTranscripts example_store)"
    by (simp add: example_pending)
  have sub: "\<forall>e\<in>set ?rs. \<exists>r\<in>set (getPendingTranscripts example_store). uuid r = result_uuid e"
    using u mem by auto
  have g: "store_get ''u1'' example_store = Some example_record"
    by (simp add: example_store_def example_record_def)
  show ?thesis
    using results_applied_by_uuid [where fetch = created_network and st = example_store
        and status = 200 and results = ?rs, OF resp ok dist sub] resp ok dist u mem g
    by simp
qed

text \<open>
  C3 (as amended).  When the batch request is rejected by the network or answered with a
  status that is not ok, neither copy of the sync operation touches the store, so every
  submitted record is still pending; the service worker's copy throws the error to its
  caller, the client's copy catches it and returns normally.
\<close>

theorem failed_request_keeps_store:
  assumes pend: "getPendingTranscripts st \<noteq> []"
    and fail: "fetch (getPendingTranscripts st) = FetchRejected
               \<or> (\<exists>status body. fetch (getPendingTranscripts st) = FetchResponse status body
                     \<and> \<not> response_ok status)"
  shows "store_after (sw_syncWithServer fetch st) = st
    \<and> store_after (syncWithServer fetch st) = st
    \<and> getPendingTranscripts (store_after (sw_syncWithServer fetch st)) = getPendingTranscripts st
    \<and> getPendingTranscripts (store_after (syncWithServer fetch st)) = getPendingTranscripts st
    \<and> thrown (sw_syncWithServer fetch st) =
        Some (case fetch (getPendingTranscripts st) of
                FetchRejected \<Rightarrow> NetworkFailure
              | FetchResponse status body \<Rightarrow> ServerResponded status)
    \<and> thrown (syncWithServer fetch st) = None"
proof -
  have "sync_try upd call fetch (getPendingTranscripts st) st =
        (Inl (case fetch (getPendingTranscripts st) of
                FetchRejected \<Rightarrow> NetworkFailure
              | FetchResponse status body \<Rightarrow> ServerResponded status), st)" for upd call
    using fail by (auto simp: sync_try_def)
  then show ?thesis
    using pend by (simp add: sw_store_after client_store_after sw_thrown client_thrown)
qed

theorem failed_request_keeps_store_witness:
  "getPendingTranscripts example_store \<noteq> []
   \<and> failing_network (getPendingTranscripts example_store) = FetchRejected
   \<and> store_after (sw_syncWithServer failing_network example_store) = example_store
   \<and> store_after (syncWithServer failing_network example_store) = example_store
   \<and> thrown (sw_syncWithServer failing_network example_store) = Some NetworkFailure
   \<and> thrown (syncWithServer failing_network example_store) = None"
proof -
  have pend: "getPendingTranscripts example_store \<noteq> []" by (simp add: example_pending)
  have rej: "failing_network (getPendingTranscripts example_store) = FetchRejected"
    by (simp add: failing_network_def)
  show ?thesis
    using failed_request_keeps_store [where fetch = failing_network and st = example_store]
      pend rej by simp
qed

text \<open>
  C3, counterexample: the client's sync operation sends the batch, the request is
  rejected, and the operation returns normally: no error reaches its caller.
\<close>

theorem client_sync_swallows_error:
  "requests (syncWithServer failing_network example_store) = [[example_record]]
   \<and> failing_network [example_record] = FetchRejected
   \<and> thrown (syncWithServer failing_network example_store) = None"
  by (simp add: syncWithServer_def example_pending Let_def sync_try_def failing_network_def)

text \<open>
  C4 (as amended).  \<open>updateTranscriptStatus\<close> (both copies) rejects with the not-found
  message when no record is stored under the key, and the store stays as it was; otherwise
  it stores the record with the new \<open>sync_status\<close>, and the record's timestamp
  \<open>updated_at\<close> keeps its value.
\<close>

theorem updateTranscriptStatus_outcome:
  "(store_get k st = None \<longrightarrow>
      updateTranscriptStatus k s st = Inl (RecordNotFound ''Record not found.'')
      \<and> sw_updateTranscriptStatus k s st = Inl (RecordNotFound (''Record not found: '' @ k))
      \<and> snd (promise_all updateTranscriptStatus [Some (k, s)] st) = st
      \<and> snd (promise_all sw_updateTranscriptStatus [Some (k, s)] st) = st)
   \<and> (\<forall>r. store_get k st = Some r \<longrightarrow>
        (\<exists>st' r'. updateTranscriptStatus k s st = Inr st'
           \<and> sw_updateTranscriptStatus k s st = Inr st'
           \<and> store_get k st' = Some r'
           \<and> sync_status r' = s
           \<and> updated_at r' = updated_at r))"
proof -
  have "store_get k (store_put (r\<lparr>sync_status := s\<rparr>) st) = Some (r\<lparr>sync_status := s\<rparr>)"
    if "store_get k st = Some r" for r
    using store_get_update [OF that, of k s] by simp
  then show ?thesis
    by (auto simp: updateTranscriptStatus_def sw_updateTranscriptStatus_def)
qed

theorem updateTranscriptStatus_outcome_witness:
  "store_get ''u2'' example_store = None
   \<and> updateTranscriptStatus ''u2'' ''synced'' example_store
       = Inl (RecordNotFound ''Record not found.'')
   \<and> sw_updateTranscriptStatus ''u2'' ''synced'' example_store
       = Inl (RecordNotFound ''Record not found: u2'')
   \<and> store_get ''u1'' example_store = Some example_record
   \<and> (\<exists>st' r'. updateTranscriptStatus ''u1'' ''synced'' example_store = Inr st'
         \<and> store_get ''u1'' st' = Some r' \<and> sync_status r' = ''synced''
         \<and> updated_at r' = updated_at example_record)"
proof -
  have n: "store_get ''u2'' example_store = None"
    by (simp add: example_store_def example_record_def)
  have g: "store_get ''u1'' example_store = Some example_record"
    by (simp add: example_store_def example_record_def)
  show ?thesis
    using updateTranscriptStatus_outcome [of "''u2''" example_store "''synced''"]
      updateTranscriptStatus_outcome [of "''u1''" example_store "''synced''"] n g
    by auto
qed

text \<open>
  C4, counterexample: the status of a stored record is updated, and the record's
  timestamp is the one it had before.
\<close>

theorem updateTranscriptStatus_keeps_timestamp:
  "updated_at example_record = 1700000000
   \<and> updateTranscriptStatus ''u1'' ''synced'' example_store
       = Inr [\<lparr>uuid = ''u1'', speaker_id = ''7'', transcript_text = ''halo'',
              updated_at = 1700000000, sync_status = ''synced''\<rparr>]
   \<and> sw_updateTranscriptStatus ''u1'' ''synced'' example_store
       = Inr [\<lparr>uuid = ''u1'', speaker_id = ''7'', transcript_text = ''halo'',
              updated_at = 1700000000, sync_status = ''synced''\<rparr>]"
  by (simp add: updateTranscriptStatus_def sw_updateTranscriptStatus_def example_store_def
      example_record_def)

text \<open>
  C5.  With no pending record, neither copy of the sync operation sends a request; it
  returns normally and the store is the one it found.
\<close>

theorem empty_queue_is_noop:
  assumes "getPendingTranscripts st = []"
  shows "syncWithServer fetch st = \<lparr>thrown = None, store_after = st, requests = []\<rparr>
    \<and> sw_syncWithServer fetch st = \<lparr>thrown = None, store_after = st, requests = []\<rparr>"
  using assms
  by (simp add: syncWithServer_def sw_syncWithServer_def getPendingTranscripts_def
      sw_getPendingTranscripts_def)

theorem empty_queue_is_noop_witness:
  "getPendingTranscripts synced_store = []
   \<and> syncWithServer failing_network synced_store
       = \<lparr>thrown = None, store_after = synced_store, requests = []\<rparr>
   \<and> sw_syncWithServer failing_network synced_store
       = \<lparr>thrown = None, store_after = synced_store, requests = []\<rparr>"
proof -
  have e: "getPendingTranscripts synced_store = []"
    by (simp add: getPendingTranscripts_def synced_store_def example_record_def)
  show ?thesis using empty_queue_is_noop [OF e, of failing_network] e by simp
qed

text \<open>
  C9.  Updating the status of a stored record changes its \<open>sync_status\<close> and nothing
  else: the record keeps its uuid, its payload and its timestamp, every other record is
  the one it was, and no record is added or removed.
\<close>

theorem status_update_frame:
  assumes "store_get k st = Some r"
  shows "\<exists>st' r'. updateTranscriptStatus k s st = Inr st'
      \<and> sw_updateTranscriptStatus k s st = Inr st'
      \<and> store_get k st' = Some r'
      \<and> uuid r' = uuid r \<and> speaker_id r' = speaker_id r
      \<and> transcript_text r' = transcript_text r \<and> updated_at r' = updated_at r
      \<and> sync_status r' = s
      \<and> (\<forall>k'. k' \<noteq> k \<longrightarrow> store_get k' st' = store_get k' st)
      \<and> map uuid st' = map uuid st"
proof -
  let ?r = "r\<lparr>sync_status := s\<rparr>"
  let ?st = "store_put ?r st"
  have u: "uuid r = k" using assms by (rule store_get_uuid)
  have 1: "updateTranscriptStatus k s st = Inr ?st" "sw_updateTranscriptStatus k s st = Inr ?st"
    using assms by (simp_all add: updateTranscriptStatus_def sw_updateTranscriptStatus_def)
  have 2: "store_get k ?st = Some ?r" using store_get_update [OF assms, of k s] by simp
  have 3: "\<forall>k'. k' \<noteq> k \<longrightarrow> store_get k' ?st = store_get k' st"
    using store_get_update [OF assms] by simp
  have 4: "map uuid ?st = map uuid st"
    using store_put_keys [of ?r st] assms u by simp
  show ?thesis using 1 2 3 4 by simp
qed

theorem status_update_frame_witness:
  "store_get ''u1'' example_store = Some example_record
   \<and> (\<exists>st' r'. updateTranscriptStatus ''u1'' ''conflict'' example_store = Inr st'
      \<and> sw_updateTranscriptStatus ''u1'' ''conflict'' example_store = Inr st'
      \<and> store_get ''u1'' st' = Some r'
      \<and> uuid r' = ''u1'' \<and> speaker_id r' = ''7''
      \<and> transcript_text r' = ''halo'' \<and> updated_at r' = 1700000000
      \<and> sync_status r' = ''conflict''
      \<and> map uuid st' = [''u1''])"
proof -
  have g: "store_get ''u1'' example_store = Some example_record"
    by (simp add: example_store_def example_record_def)
  show ?thesis
    using status_update_frame [OF g, of "''conflict''"] g
    by (auto simp: example_record_def example_store_def)
qed

section \<open>Properties of the auto-sync manager\<close>

lemma removeAll_only: "set xs \<subseteq> {t} \<Longrightarrow> removeAll t xs = []"
  by (induction xs) auto

lemma timer_inv_active:
  assumes "timer_inv m" "active_timers m = t # ts"
  shows "retryTimer m = Some t" "removeAll t (active_timers m) = []"
proof -
  have "t \<in> set_option (retryTimer m)" using assms by (auto simp: timer_inv_def)
  then show r: "retryTimer m = Some t" by (cases "retryTimer m") auto
  have "set (active_timers m) \<subseteq> {t}" using assms(1) r by (simp add: timer_inv_def)
  then show "removeAll t (active_timers m) = []" by (rule removeAll_only)
qed

lemma scheduleRetry_cap:
  "maxRetries m \<le> retryCount m \<Longrightarrow> scheduleRetry m = m\<lparr>retryCount := 0\<rparr>"
  by (simp add: scheduleRetry_def)

lemma scheduleRetry_fields:
  assumes "retryCount m < maxRetries m" "timer_inv m"
  shows "active_timers (scheduleRetry m) = [Suc (timeouts_set m)]"
    and "retryTimer (scheduleRetry m) = Some (Suc (timeouts_set m))"
    and "timeouts_set (scheduleRetry m) = Suc (timeouts_set m)"
    and "retryCount (scheduleRetry m) = Suc (retryCount m)"
    and "maxRetries (scheduleRetry m) = maxRetries m"
    and "callback_calls (scheduleRetry m) = callback_calls m"
proof -
  have "removeAll t (active_timers m) = []" if "retryTimer m = Some t" for t
  proof -
    have "set (active_timers m) \<subseteq> {t}" using assms(2) that by (simp add: timer_inv_def)
    then show ?thesis by (rule removeAll_only)
  qed
  moreover have "active_timers m = []" if "retryTimer m = None"
    using assms(2) that by (simp add: timer_inv_def)
  ultimately show "active_timers (scheduleRetry m) = [Suc (timeouts_set m)]"
    and "retryTimer (scheduleRetry m) = Some (Suc (timeouts_set m))"
    and "timeouts_set (scheduleRetry m) = Suc (timeouts_set m)"
    and "retryCount (scheduleRetry m) = Suc (retryCount m)"
    and "maxRetries (scheduleRetry m) = maxRetries m"
    and "callback_calls (scheduleRetry m) = callback_calls m"
    using assms(1)
    by (auto simp: scheduleRetry_def clearRetryTimer_def Let_def split: option.splits)
qed

lemma timer_inv_scheduleRetry: "timer_inv m \<Longrightarrow> timer_inv (scheduleRetry m)"
proof (cases "retryCount m < maxRetries m")
  case True
  assume "timer_inv m"
  from scheduleRetry_fields(1,2) [OF True this] show ?thesis by (simp add: timer_inv_def)
next
  case False
  assume "timer_inv m"
  then show ?thesis using False by (simp add: scheduleRetry_cap timer_inv_def)
qed

lemma timer_inv_clearRetryTimer: "timer_inv m \<Longrightarrow> timer_inv (clearRetryTimer m)"
  by (auto simp: timer_inv_def clearRetryTimer_def split: option.splits)

lemma timer_inv_new: "timer_inv (new_AutoSyncManager opts)"
  by (simp add: timer_inv_def new_AutoSyncManager_def)

lemma timer_inv_calls: "timer_inv (m\<lparr>callback_calls := c\<rparr>) = timer_inv m"
  by (simp add: timer_inv_def)

lemma timer_inv_count: "timer_inv (m\<lparr>retryCount := c\<rparr>) = timer_inv m"
  by (simp add: timer_inv_def)

lemma timer_inv_attemptSync: "timer_inv m \<Longrightarrow> timer_inv (attemptSync online resolves m)"
  by (simp add: attemptSync_def Let_def timer_inv_scheduleRetry timer_inv_clearRetryTimer
      timer_inv_calls timer_inv_count)

lemma timer_inv_drop: "timer_inv m \<Longrightarrow> timer_inv (m\<lparr>active_timers := removeAll t (active_timers m)\<rparr>)"
  by (auto simp: timer_inv_def)

lemma timer_inv_timer_fires: "timer_inv m \<Longrightarrow> timer_inv (timer_fires online resolves t m)"
  by (simp add: timer_fires_def timer_inv_attemptSync timer_inv_drop)


text \<open>A failing attempt: what it adds to the timeouts and what it leaves to come.\<close>

lemma failing_attempt:
  assumes "timer_inv m"
  shows "maxRetries (attemptSync online False m) = maxRetries m"
    and "active_timers m = [] \<Longrightarrow>
         timeouts_set (attemptSync online False m) + retry_budget (attemptSync online False m)
         \<le> timeouts_set m + (maxRetries m - retryCount m)"
proof -
  let ?m1 = "m\<lparr>callback_calls := Suc (callback_calls m)\<rparr>"
  have inv1: "timer_inv ?m1" using assms by (simp add: timer_inv_calls)
  show "maxRetries (attemptSync online False m) = maxRetries m"
  proof (cases "retryCount m < maxRetries m")
    case True
    then show ?thesis using scheduleRetry_fields(5) [of ?m1] inv1
      by (simp add: attemptSync_def Let_def)
  next
    case False
    then show ?thesis by (simp add: attemptSync_def Let_def scheduleRetry_cap)
  qed
  assume idle: "active_timers m = []"
  show "timeouts_set (attemptSync online False m) + retry_budget (attemptSync online False m)
         \<le> timeouts_set m + (maxRetries m - retryCount m)"
  proof (cases online)
    case False
    then show ?thesis using idle by (simp add: attemptSync_def retry_budget_def)
  next
    case on: True
    show ?thesis
    proof (cases "retryCount m < maxRetries m")
      case True
      then have c: "retryCount ?m1 < maxRetries ?m1" by simp
      show ?thesis
        using scheduleRetry_fields [OF c inv1] on True
        by (simp add: attemptSync_def Let_def retry_budget_def)
    next
      case False
      then show ?thesis using on idle
        by (simp add: attemptSync_def Let_def scheduleRetry_cap retry_budget_def)
    qed
  qed
qed

lemma timer_fires_step:
  assumes inv: "timer_inv m" and act: "active_timers m = t # ts"
  shows "timeouts_set (timer_fires online False t m)
           + retry_budget (timer_fires online False t m)
         \<le> timeouts_set m + retry_budget m"
    and "maxRetries (timer_fires online False t m) = maxRetries m"
    and "active_timers (timer_fires online False t m) \<noteq> [] \<Longrightarrow>
         retryCount (timer_fires online False t m) = Suc (retryCount m)
         \<and> retryCount m < maxRetries m"
proof -
  let ?m0 = "m\<lparr>active_timers := removeAll t (active_timers m)\<rparr>"
  have f: "timer_fires online False t m = attemptSync online False ?m0"
    using act by (simp add: timer_fires_def)
  have inv0: "timer_inv ?m0" using inv by (rule timer_inv_drop)
  have idle: "active_timers ?m0 = []" using timer_inv_active(2) [OF inv act] by simp
  have b: "retry_budget m = maxRetries m - retryCount m" using act by (simp add: retry_budget_def)
  show "timeouts_set (timer_fires online False t m)
           + retry_budget (timer_fires online False t m)
         \<le> timeouts_set m + retry_budget m"
    using failing_attempt(2) [OF inv0 idle, of online] f b by simp
  show "maxRetries (timer_fires online False t m) = maxRetries m"
    using failing_attempt(1) [OF inv0, of online] f by simp
  assume a: "active_timers (timer_fires online False t m) \<noteq> []"
  let ?m1 = "?m0\<lparr>callback_calls := Suc (callback_calls ?m0)\<rparr>"
  have inv1: "timer_inv ?m1" using inv0 by (simp add: timer_inv_calls)
  have on: online
  proof (rule ccontr)
    assume "\<not> online"
    then show False using a f idle by (simp add: attemptSync_def)
  qed
  have lt: "retryCount m < maxRetries m"
  proof (rule ccontr)
    assume "\<not> retryCount m < maxRetries m"
    then show False using a f idle on by (simp add: attemptSync_def Let_def scheduleRetry_cap)
  qed
  then have c: "retryCount ?m1 < maxRetries ?m1" by simp
  show "retryCount (timer_fires online False t m) = Suc (retryCount m)
         \<and> retryCount m < maxRetries m"
    using scheduleRetry_fields(4) [OF c inv1] on lt f by (simp add: attemptSync_def Let_def)
qed

lemma run_retries_idle: "active_timers m = [] \<Longrightarrow> run_retries ons m = m"
  by (cases ons) simp_all

lemma run_retries_bound:
  "timer_inv m \<Longrightarrow> timeouts_set (run_retries ons m) \<le> timeouts_set m + retry_budget m"
proof (induction ons arbitrary: m)
  case Nil
  then show ?case by simp
next
  case (Cons online rest)
  show ?case
  proof (cases "active_timers m")
    case Nil
    then show ?thesis by simp
  next
    case (Cons t ts)
    let ?m' = "timer_fires online False t m"
    have "timeouts_set (run_retries rest ?m') \<le> timeouts_set ?m' + retry_budget ?m'"
      using Cons.IH [OF timer_inv_timer_fires [OF Cons.prems]] .
    also have "\<dots> \<le> timeouts_set m + retry_budget m"
      using timer_fires_step(1) [OF Cons.prems Cons] .
    finally show ?thesis using Cons by simp
  qed
qed

lemma run_retries_stops:
  "timer_inv m \<Longrightarrow> maxRetries m - retryCount m < length ons
   \<Longrightarrow> active_timers (run_retries ons m) = []"
proof (induction ons arbitrary: m)
  case Nil
  then show ?case by simp
next
  case (Cons online rest)
  show ?case
  proof (cases "active_timers m")
    case Nil
    then show ?thesis by simp
  next
    case act: (Cons t ts)
    let ?m' = "timer_fires online False t m"
    have inv': "timer_inv ?m'" using timer_inv_timer_fires [OF Cons.prems(1)] .
    show ?thesis
    proof (cases "active_timers ?m' = []")
      case True
      then show ?thesis using act by (simp add: run_retries_idle)
    next
      case False
      have c: "retryCount ?m' = Suc (retryCount m)" "retryCount m < maxRetries m"
        using timer_fires_step(3) [OF Cons.prems(1) act False] by simp_all
      have x: "maxRetries ?m' = maxRetries m"
        using timer_fires_step(2) [OF Cons.prems(1) act] .
      have "maxRetries m - Suc (retryCount m) < length rest"
        using c(2) Cons.prems(2) by simp
      then have "maxRetries ?m' - retryCount ?m' < length rest" using c(1) x by simp
      from Cons.IH [OF inv' this] show ?thesis using act by simp
    qed
  qed
qed

lemma retry_budget_le: "retry_budget m \<le> maxRetries m - retryCount m"
  by (simp add: retry_budget_def)

lemma trigger_budget:
  assumes inv: "timer_inv m"
  shows "timeouts_set (attemptSync online False m) + retry_budget (attemptSync online False m)
         \<le> timeouts_set m + maxRetries m"
proof (cases online)
  case False
  then show ?thesis using retry_budget_le [of m] by (simp add: attemptSync_def)
next
  case on: True
  let ?m1 = "m\<lparr>callback_calls := Suc (callback_calls m)\<rparr>"
  have inv1: "timer_inv ?m1" using inv by (simp add: timer_inv_calls)
  show ?thesis
  proof (cases "retryCount m < maxRetries m")
    case True
    then have c: "retryCount ?m1 < maxRetries ?m1" by simp
    show ?thesis
      using scheduleRetry_fields [OF c inv1] on True
      by (simp add: attemptSync_def Let_def retry_budget_def)
  next
    case False
    then show ?thesis using on
      by (simp add: attemptSync_def Let_def scheduleRetry_cap retry_budget_def)
  qed
qed

text \<open>
  The bound in terms of the field \<open>maxRetries\<close>, from any state in which the only timeout
  set is the one the manager remembers: after a failing \<open>attemptSync\<close> and any number of
  firings with a callback that rejects, at most \<open>maxRetries\<close> new timeouts have been set,
  and after more than \<open>maxRetries\<close> firings none is set.
\<close>

lemma retry_bound_by_field:
  assumes inv: "timer_inv m"
  shows "timeouts_set (run_retries ons (attemptSync online False m))
           \<le> timeouts_set m + maxRetries m
    \<and> (maxRetries m < length ons \<longrightarrow>
         active_timers (run_retries ons (attemptSync online False m)) = []
         \<and> (\<forall>later. run_retries later (run_retries ons (attemptSync online False m))
                     = run_retries ons (attemptSync online False m)))
    \<and> maxRetries (new_AutoSyncManager default_options) = 5"
proof -
  let ?m' = "attemptSync online False m"
  have inv': "timer_inv ?m'" using inv by (rule timer_inv_attemptSync)
  have "timeouts_set (run_retries ons ?m') \<le> timeouts_set ?m' + retry_budget ?m'"
    using run_retries_bound [OF inv'] .
  also have "\<dots> \<le> timeouts_set m + maxRetries m" using trigger_budget [OF inv] .
  finally have bound: "timeouts_set (run_retries ons ?m') \<le> timeouts_set m + maxRetries m" .
  have stops: "active_timers (run_retries ons ?m') = []" if "maxRetries m < length ons"
  proof -
    have "maxRetries ?m' = maxRetries m" using failing_attempt(1) [OF inv] .
    then have "maxRetries ?m' - retryCount ?m' < length ons" using that by simp
    then show ?thesis using run_retries_stops [OF inv'] by simp
  qed
  have dflt: "maxRetries (new_AutoSyncManager default_options) = 5"
    by (simp add: new_AutoSyncManager_def default_options_def or_default_def)
  show ?thesis using bound stops dflt by (simp add: run_retries_idle)
qed

lemma default_manager_run:
  "timer_inv (new_AutoSyncManager default_options)
   \<and> maxRetries (new_AutoSyncManager default_options) < length [True, True, True, True, True, True]
   \<and> timeouts_set (run_retries [True, True, True, True, True, True]
        (attemptSync True False (new_AutoSyncManager default_options))) = 5
   \<and> active_timers (run_retries [True, True, True, True, True, True]
        (attemptSync True False (new_AutoSyncManager default_options))) = []
   \<and> timeouts_set (run_retries [True, True, True, True, True, True, True, True]
        (run_retries [True, True, True, True, True, True]
          (attemptSync True False (new_AutoSyncManager default_options)))) = 5"
proof -
  have inv: "timer_inv (new_AutoSyncManager default_options)" by (rule timer_inv_new)
  have five: "maxRetries (new_AutoSyncManager default_options) = 5"
    by (simp add: new_AutoSyncManager_def default_options_def or_default_def)
  have run: "timeouts_set (run_retries [True, True, True, True, True, True]
        (attemptSync True False (new_AutoSyncManager default_options))) = 5"
    by (simp add: new_AutoSyncManager_def default_options_def or_default_def attemptSync_def
        scheduleRetry_def clearRetryTimer_def timer_fires_def Let_def)
  show ?thesis
    using retry_bound_by_field [OF inv, of "[True, True, True, True, True, True]" True] inv five run
    by simp
qed











text \<open>
  C10.  Called while \<open>navigator.onLine\<close> is false, \<open>attemptSync\<close> leaves everything as it
  was: the sync callback is not called, the retry count keeps its value, no timeout is
  set or cleared.  The same holds when the call comes from a retry timeout that fires
  while offline.
\<close>

theorem offline_attempt_is_noop:
  "attemptSync False resolves m = m
   \<and> callback_calls (attemptSync False resolves m) = callback_calls m
   \<and> retryCount (attemptSync False resolves m) = retryCount m
   \<and> timeouts_set (attemptSync False resolves m) = timeouts_set m
   \<and> active_timers (attemptSync False resolves m) = active_timers m
   \<and> callback_calls (timer_fires False resolves t m) = callback_calls m
   \<and> retryCount (timer_fires False resolves t m) = retryCount m
   \<and> timeouts_set (timer_fires False resolves t m) = timeouts_set m"
  by (simp add: attemptSync_def timer_fires_def)

section \<open>Properties of the cache maintenance and of the request router\<close>

lemma fold_delete:
  "fold (\<lambda>cacheName acc. if cacheName \<noteq> C then caches_delete cacheName acc else acc) ns acc
   = filter (\<lambda>e. fst e = C \<or> fst e \<notin> set ns) acc"
proof (induction ns arbitrary: acc)
  case Nil
  then show ?case by simp
next
  case (Cons n ns)
  have "filter (\<lambda>e. fst e = C \<or> fst e \<notin> set ns) (caches_delete n acc)
        = filter (\<lambda>e. fst e = C \<or> fst e \<notin> set (n # ns)) acc" if "n \<noteq> C"
    using that unfolding caches_delete_def filter_filter
    by (intro filter_cong) auto
  moreover have "filter (\<lambda>e. fst e = C \<or> fst e \<notin> set ns) acc
        = filter (\<lambda>e. fst e = C \<or> fst e \<notin> set (n # ns)) acc" if "n = C"
    using that by (intro filter_cong) auto
  ultimately show ?case using Cons.IH by simp
qed

lemma activate_filter: "activate cs = filter (\<lambda>e. fst e = CACHE_NAME) cs"
proof -
  have "activate cs = filter (\<lambda>e. fst e = CACHE_NAME \<or> fst e \<notin> set (map fst cs)) cs"
    by (simp add: activate_def caches_keys_def fold_delete)
  also have "\<dots> = filter (\<lambda>e. fst e = CACHE_NAME) cs"
    by (intro filter_cong) auto
  finally show ?thesis .
qed

lemma filter_eq_distinct: "distinct xs \<Longrightarrow> x \<in> set xs \<Longrightarrow> filter (\<lambda>y. y = x) xs = [x]"
  by (induction xs) (auto simp: filter_empty_conv)

lemma keys_open: "set (caches_keys (caches_open name cs)) = insert name (set (caches_keys cs))"
  by (auto simp: caches_open_def caches_keys_def)

lemma distinct_open: "distinct (caches_keys cs) \<Longrightarrow> distinct (caches_keys (caches_open name cs))"
  by (auto simp: caches_open_def caches_keys_def)

lemma keys_open_put: "caches_keys (caches_open_put name url r cs) = caches_keys (caches_open name cs)"
  by (simp add: caches_open_put_def caches_keys_def o_def if_distrib cong: if_cong)

lemma keys_open_present: "name \<in> set (caches_keys cs) \<Longrightarrow> caches_keys (caches_open name cs) = caches_keys cs"
  by (simp add: caches_open_def)

lemma keys_install_fold:
  "name \<in> set (caches_keys cs) \<Longrightarrow>
   caches_keys (fold (\<lambda>p. case snd p of Some r \<Rightarrow> caches_open_put name (fst p) r | None \<Rightarrow> id) ps cs)
   = caches_keys cs"
proof (induction ps arbitrary: cs)
  case Nil
  then show ?case by simp
next
  case (Cons p ps)
  show ?case
  proof (cases "snd p")
    case None
    then show ?thesis using Cons by simp
  next
    case (Some r)
    have k: "caches_keys (caches_open_put name (fst p) r cs) = caches_keys cs"
      using Cons.prems by (simp add: keys_open_put keys_open_present)
    then show ?thesis using Cons.IH [of "caches_open_put name (fst p) r cs"] Cons.prems Some
      by simp
  qed
qed

lemma keys_install:
  "caches_keys (snd (install fetch self_origin cs)) = caches_keys (caches_open CACHE_NAME cs)"
proof -
  have "CACHE_NAME \<in> set (caches_keys (caches_open CACHE_NAME cs))" by (simp add: keys_open)
  then show ?thesis
    by (simp add: install_def Let_def keys_install_fold)
qed

lemma map_of_filter_key: "map_of (filter (\<lambda>e. fst e = k) xs) k = map_of xs k"
  by (induction xs) auto

text \<open>
  C7.  The \<open>activate\<close> listener deletes every cache whose name is not \<open>CACHE_NAME\<close> and
  leaves the current cache as it is.  The current cache exists when the listener runs,
  because the \<open>install\<close> listener has opened it (whether or not \<open>addAll\<close> succeeded), so
  after the activation the cache storage holds exactly the current cache.
\<close>

theorem activation_keeps_current_cache_only:
  "caches_keys (activate cs) = filter (\<lambda>name. name = CACHE_NAME) (caches_keys cs)
   \<and> (\<forall>name. name \<noteq> CACHE_NAME \<longrightarrow> name \<notin> set (caches_keys (activate cs)))
   \<and> map_of (activate cs) CACHE_NAME = map_of cs CACHE_NAME
   \<and> (distinct (caches_keys cs) \<longrightarrow> CACHE_NAME \<in> set (caches_keys cs) \<longrightarrow>
        caches_keys (activate cs) = [CACHE_NAME])
   \<and> (distinct (caches_keys cs) \<longrightarrow>
        caches_keys (activate (snd (install fetch self_origin cs))) = [CACHE_NAME])"
proof -
  have k: "caches_keys (activate cs) = filter (\<lambda>name. name = CACHE_NAME) (caches_keys cs)" for cs
    by (simp add: activate_filter caches_keys_def filter_map o_def)
  have one: "caches_keys (activate cs) = [CACHE_NAME]"
    if "distinct (caches_keys cs)" "CACHE_NAME \<in> set (caches_keys cs)" for cs
    using that by (simp add: k filter_eq_distinct)
  have inst: "caches_keys (activate (snd (install fetch self_origin cs))) = [CACHE_NAME]"
    if "distinct (caches_keys cs)"
  proof (rule one)
    show "distinct (caches_keys (snd (install fetch self_origin cs)))"
      using that by (simp add: keys_install distinct_open)
    show "CACHE_NAME \<in> set (caches_keys (snd (install fetch self_origin cs)))"
      by (simp add: keys_install keys_open)
  qed
  have m: "map_of (activate cs) CACHE_NAME = map_of cs CACHE_NAME"
    by (simp add: activate_filter map_of_filter_key)
  show ?thesis using k [of cs] one [of cs] inst m by simp
qed

theorem activation_keeps_current_cache_only_witness:
  "distinct (caches_keys example_caches)
   \<and> CACHE_NAME \<in> set (caches_keys example_caches)
   \<and> caches_keys example_caches = [''smartcapi-v0'', ''smartcapi-v1'']
   \<and> caches_keys (activate example_caches) = [''smartcapi-v1'']
   \<and> caches_keys (activate (snd (install dead_network ''https://capi.example'' example_caches)))
       = [''smartcapi-v1'']"
proof -
  have d: "distinct (caches_keys example_caches)"
    by (simp add: example_caches_def caches_keys_def)
  have c: "CACHE_NAME \<in> set (caches_keys example_caches)"
    by (simp add: example_caches_def caches_keys_def CACHE_NAME_def)
  have k: "caches_keys example_caches = [''smartcapi-v0'', ''smartcapi-v1'']"
    by (simp add: example_caches_def caches_keys_def)
  show ?thesis
    using activation_keeps_current_cache_only [of example_caches dead_network
        "''https://capi.example''"] d c k
    by (simp add: CACHE_NAME_def)
qed

lemma map_of_map_named:
  "map_of (map (\<lambda>e. if fst e = name then (fst e, g (snd e)) else e) xs) name
   = map_option g (map_of xs name)"
  by (induction xs) auto

lemma map_of_open:
  "map_of (caches_open name cs) name
   = Some (case map_of cs name of Some c \<Rightarrow> c | None \<Rightarrow> [])"
proof (cases "name \<in> set (caches_keys cs)")
  case True
  then obtain c where "map_of cs name = Some c"
    by (metis caches_keys_def domD dom_map_of_conv_image_fst set_map)
  then show ?thesis using True by (simp add: caches_open_def)
next
  case False
  then have "map_of cs name = None"
    by (simp add: caches_keys_def map_of_eq_None_iff)
  then show ?thesis using False by (simp add: caches_open_def map_add_def)
qed

lemma map_of_open_put:
  "map_of (caches_open_put name url r cs) name
   = Some (cache_put url r (case map_of cs name of Some c \<Rightarrow> c | None \<Rightarrow> []))"
  by (simp add: caches_open_put_def map_of_map_named map_of_open)

lemma map_of_cache_put:
  "resp_status r \<noteq> 206 \<Longrightarrow> map_of (cache_put url r c) url = Some r"
proof -
  have "map_of (filter (\<lambda>e. fst e \<noteq> url) c) url = None"
    by (auto simp: map_of_eq_None_iff)
  then show "resp_status r \<noteq> 206 \<Longrightarrow> map_of (cache_put url r c) url = Some r"
    by (simp add: cache_put_def map_add_def)
qed

lemma cache_put_refused: "resp_status r = 206 \<Longrightarrow> cache_put url r c = c"
  by (simp add: cache_put_def)

text \<open>
  The API rule itself, for the requests that reach it.  A GET request whose path starts
  with \<open>/api/\<close> and does not pass the static-file test is sent to the network first, once.
  When the fetch resolves, its response is the answer, and the cache storage changes only
  if the status is 2xx: then the response is put into the current cache under the
  request's URL (where it is found afterwards, unless the platform refuses the response).
  When the fetch rejects, the cache storage is left alone and the answer is the cached
  response for the request's URL if there is one, and the synthesized response of status
  503 with the JSON body \<open>{"error":"Offline - No cached data available","offline":true}\<close>
  otherwise.
\<close>

lemma api_request_network_first:
  assumes get: "req_method req = ''GET''"
    and api: "prefix ''/api/'' (req_pathname req)"
    and nostatic: "\<not> is_static_file (req_pathname req)"
  shows "fetched (fetch_listener fetch self_origin cs req) = [req]
    \<and> (\<forall>response. fetch req = Some response \<longrightarrow>
          answer (fetch_listener fetch self_origin cs req) = RespondWith (Some response)
          \<and> caches_after (fetch_listener fetch self_origin cs req) =
              (if response_ok (resp_status response)
               then caches_open_put CACHE_NAME (req_url req) response cs else cs)
          \<and> (response_ok (resp_status response) \<and> resp_status response \<noteq> 206 \<longrightarrow>
               (\<exists>c. map_of (caches_after (fetch_listener fetch self_origin cs req)) CACHE_NAME
                      = Some c
                    \<and> map_of c (req_url req) = Some response)))
    \<and> (fetch req = None \<longrightarrow>
          caches_after (fetch_listener fetch self_origin cs req) = cs
          \<and> answer (fetch_listener fetch self_origin cs req) =
              RespondWith (Some (case caches_match (req_url req) cs of
                                   Some cachedResponse \<Rightarrow> cachedResponse
                                 | None \<Rightarrow> offline_response)))
    \<and> resp_status offline_response = 503
    \<and> map_of (resp_headers offline_response) ''Content-Type'' = Some ''application/json''"
proof -
  let ?out = "fetch_listener fetch self_origin cs req"
  have f: "fetched ?out = [req]"
    using get api nostatic by (simp add: fetch_listener_def split: option.splits)
  have some: "answer ?out = RespondWith (Some response)
      \<and> caches_after ?out = (if response_ok (resp_status response)
               then caches_open_put CACHE_NAME (req_url req) response cs else cs)"
    if "fetch req = Some response" for response
    using get api nostatic that by (simp add: fetch_listener_def)
  have stored: "\<exists>c. map_of (caches_after ?out) CACHE_NAME = Some c
                    \<and> map_of c (req_url req) = Some response"
    if "fetch req = Some response" "response_ok (resp_status response)"
       "resp_status response \<noteq> 206" for response
    using some [OF that(1)] that(2,3) by (simp add: map_of_open_put map_of_cache_put)
  have none: "caches_after ?out = cs
      \<and> answer ?out = RespondWith (Some (case caches_match (req_url req) cs of
                                   Some cachedResponse \<Rightarrow> cachedResponse
                                 | None \<Rightarrow> offline_response))"
    if "fetch req = None"
    using get api nostatic that by (simp add: fetch_listener_def split: option.splits)
  have off: "resp_status offline_response = 503
    \<and> map_of (resp_headers offline_response) ''Content-Type'' = Some ''application/json''"
    by (simp add: offline_response_def)
  show ?thesis using f some stored none off by blast
qed

lemma api_request_not_static: "\<not> is_static_file (req_pathname api_request)"
  by (simp add: is_static_file_def STATIC_FILES_def api_request_def suffix_to_prefix)

lemma api_request_network_first_example:
  "req_method api_request = ''GET''
   \<and> prefix ''/api/'' (req_pathname api_request)
   \<and> \<not> is_static_file (req_pathname api_request)
   \<and> live_network api_request = Some api_response
   \<and> dead_network api_request = None
   \<and> fetched (fetch_listener live_network ''https://capi.example'' example_caches api_request)
       = [api_request]
   \<and> answer (fetch_listener live_network ''https://capi.example'' example_caches api_request)
       = RespondWith (Some api_response)
   \<and> fetched (fetch_listener dead_network ''https://capi.example'' example_caches api_request)
       = [api_request]
   \<and> answer (fetch_listener dead_network ''https://capi.example'' example_caches api_request)
       = RespondWith (Some offline_response)"
proof -
  have g: "req_method api_request = ''GET''" by (simp add: api_request_def)
  have p: "prefix ''/api/'' (req_pathname api_request)" by (simp add: api_request_def)
  have n: "\<not> is_static_file (req_pathname api_request)" by (rule api_request_not_static)
  have l: "live_network api_request = Some api_response" by (simp add: live_network_def)
  have d: "dead_network api_request = None" by (simp add: dead_network_def)
  have m: "caches_match (req_url api_request) example_caches = None"
    by (simp add: req_url_def api_request_def example_caches_def)
  show ?thesis
    using api_request_network_first [OF g p n, of live_network "''https://capi.example''"
        example_caches]
      api_request_network_first [OF g p n, of dead_network "''https://capi.example''"
        example_caches] g p n l d m
    by simp
qed

text \<open>
  C8.  The static-file test \<open>pathname.endsWith(file)\<close> is passed by every path that ends
  with \<open>/\<close>, the first of the static files, and it is made before the test for the API
  namespace.  So the GET request for \<open>/api/interviews/\<close> is answered by the cache-first
  rule: with a cached copy and a network that would answer, the router serves the cached
  copy and never asks the network; with no cached copy and a network that fails, its
  answer is \<open>undefined\<close> and not the response of status 503.
\<close>

theorem api_directory_request_served_from_cache:
  "req_method api_dir_request = ''GET''
   \<and> prefix ''/api/'' (req_pathname api_dir_request)
   \<and> live_network api_dir_request = Some api_response
   \<and> fetched (fetch_listener live_network ''https://capi.example'' example_caches
        api_dir_request) = []
   \<and> answer (fetch_listener live_network ''https://capi.example'' example_caches
        api_dir_request) = RespondWith (Some stale_response)
   \<and> dead_network api_dir_request = None
   \<and> answer (fetch_listener dead_network ''https://capi.example'' [] api_dir_request)
       = RespondWith None"
  by (simp add: fetch_listener_def api_dir_request_def is_static_file_def STATIC_FILES_def
      suffix_to_prefix live_network_def dead_network_def example_caches_def req_url_def)

end
